theory Spec2Isabelle
  imports Main "HOL-Library.Word" "HOL-Library.Multiset"
begin

section \<open>Strings, numbers and paths\<close>

text \<open>
  File names and paths are modelled as \<open>string\<close> (the bytes of their UTF-8 encoding).
  The source only compares them, tests them for an ASCII prefix or suffix and matches them
  against an ASCII regular expression, and these operations agree on UTF-16 code units and
  on UTF-8 bytes.
\<close>

definition starts_with :: "'a list \<Rightarrow> 'a list \<Rightarrow> bool" where
  \<comment> \<open>\<open>s.startsWith(p)\<close>; the searched-for string comes first, as in \<open>starts_with p s\<close>.\<close>
  "starts_with p s = (take (length p) s = p)"

definition ends_with :: "'a list \<Rightarrow> 'a list \<Rightarrow> bool" where
  \<comment> \<open>\<open>s.endsWith(p)\<close>.\<close>
  "ends_with p s = (length p \<le> length s \<and> drop (length s - length p) s = p)"

definition is_digit :: "char \<Rightarrow> bool" where
  \<comment> \<open>the regular expression class \<open>\\d\<close>: ASCII 0 to 9 only.\<close>
  "is_digit c = (48 \<le> (of_char c :: nat) \<and> (of_char c :: nat) \<le> 57)"

definition digit_val :: "char \<Rightarrow> nat" where
  "digit_val c = of_char c - 48"

definition digit_char :: "nat \<Rightarrow> char" where
  "digit_char d = ''0123456789'' ! d"

function show_nat :: "nat \<Rightarrow> string" where
  "show_nat n = (if n < 10 then [digit_char n] else show_nat (n div 10) @ [digit_char (n mod 10)])"
  by pat_completeness auto
termination
  by (relation "measure id") auto

declare show_nat.simps [simp del]

definition number_to_string :: "int \<Rightarrow> string" where
  \<comment> \<open>\<open>`${n}`\<close> for an integral Number of magnitude below \<open>10^21\<close> (\<open>Date.now()\<close> is):
      the decimal digits, with a minus sign when negative.\<close>
  "number_to_string i = (if i < 0 then CHR ''-'' # show_nat (nat (- i)) else show_nat (nat i))"

definition parse_digits :: "string \<Rightarrow> nat" where
  \<comment> \<open>\<open>parseInt(ds)\<close> for a non-empty string of decimal digits. The JavaScript result is
      a double, which is this integer exactly whenever it is at most \<open>2^53\<close>.\<close>
  "parse_digits ds = foldl (\<lambda>acc c. 10 * acc + digit_val c) 0 ds"

definition resolve_cwd :: "string \<Rightarrow> string \<Rightarrow> string" where
  \<comment> \<open>\<open>path.resolve(process.cwd(), rel)\<close> on POSIX, for the relative paths without
      \<open>.\<close> or \<open>..\<close> segments that the source passes; \<open>process.cwd()\<close> is absolute and normalised.\<close>
  "resolve_cwd cwd rel = (if cwd = ''/'' then cwd @ rel else cwd @ ''/'' @ rel)"

definition path_join :: "string \<Rightarrow> string \<Rightarrow> string" where
  \<comment> \<open>\<open>path.join(dir, file)\<close> for a directory entry \<open>file\<close> of \<open>dir\<close>.\<close>
  "path_join dir file = dir @ ''/'' @ file"

section \<open>The backend loader (server/index.ts)\<close>

datatype js_error =
    BuildError
  | ModuleLoadError
  | TypeError
  | RegistrationError
  | FsError
  | StartupError
  | BadPort
  | BindError

text \<open>
  What the process does to the outside world is kept as a trace, oldest effect first.
\<close>

datatype effect =
    ConsoleError string
  | ConsoleLog string
  | Build string
  | Import string
  | ScheduleCleanup
  | Listen nat string
  | Listening nat
  | ServeStatic
  | SetupVite
  | Watch "string list"

text \<open>
  \<open>stack\<close> is \<open>backendRouter.stack\<close>, the route table mounted under \<open>/api\<close>; the type
  \<open>'h\<close> of its layers is left open.
\<close>

record 'h server =
  stack :: "'h list"
  effects :: "effect list"

definition emit :: "effect \<Rightarrow> 'h server \<Rightarrow> 'h server" where
  "emit e st = st\<lparr>effects := effects st @ [e]\<rparr>"

text \<open>
  The value of \<open>backend.registerRoutes\<close> on the imported module object: falsy (absent),
  truthy but not a function, or a function. A registrar receives the router's stack and
  leaves a stack behind, also when it throws or its promise rejects.
\<close>

datatype 'h registrar_export =
    NoExport
  | NotCallable
  | Registrar "'h list \<Rightarrow> (js_error + unit) \<times> 'h list"

text \<open>
  The outcomes of the two external steps of one \<open>loadBackend\<close> run: \<open>build(...)\<close>
  of esbuild rejects with an error or resolves, and \<open>import(outfile)\<close> rejects or yields the
  module object.
\<close>

record 'h rebuild_env =
  build_result :: "js_error option"
  import_result :: "js_error + 'h registrar_export"

definition artifact_name :: "int \<Rightarrow> string" where
  "artifact_name timestamp = ''backend.dist.'' @ number_to_string timestamp @ ''.cjs''"

definition outfile :: "string \<Rightarrow> int \<Rightarrow> string" where
  "outfile cwd timestamp = resolve_cwd cwd (''dist/server/'' @ artifact_name timestamp)"

definition loadBackend ::
  "string \<Rightarrow> int \<Rightarrow> 'h rebuild_env \<Rightarrow> 'h server \<Rightarrow> (js_error + unit) \<times> 'h server" where
  \<comment> \<open>\<open>now\<close> is the value \<open>Date.now()\<close> returns at the first line.\<close>
  "loadBackend cwd now env st =
     (let out = outfile cwd now;
          st1 = emit (Build out) st
      in case build_result env of
           Some e \<Rightarrow> (Inl e, st1)
         | None \<Rightarrow>
             (let st2 = emit (Import out) st1
              in case import_result env of
                   Inl e \<Rightarrow> (Inl e, st2)
                 | Inr NoExport \<Rightarrow>
                     (Inr (),
                      emit ScheduleCleanup
                        (emit (ConsoleError ''Backend module has no registerRoutes export!'') st2))
                 | Inr NotCallable \<Rightarrow> (Inl TypeError, st2\<lparr>stack := []\<rparr>)
                 | Inr (Registrar f) \<Rightarrow>
                     (case f [] of
                        (Inl e, stk) \<Rightarrow> (Inl e, st2\<lparr>stack := stk\<rparr>)
                      | (Inr _, stk) \<Rightarrow> (Inr (), emit ScheduleCleanup (st2\<lparr>stack := stk\<rparr>)))))"

subsection \<open>The change watcher\<close>

datatype watch_event = Add | AddDir | Change | Unlink | UnlinkDir

definition on_all ::
  "string \<Rightarrow> int \<Rightarrow> 'h rebuild_env \<Rightarrow> watch_event \<Rightarrow> string \<Rightarrow> 'h server \<Rightarrow> 'h server" where
  \<comment> \<open>the handler of \<open>.on("all", (event, path) => ...)\<close>; the reload message starts with
      four non-ASCII characters, written here as the bytes the source file has for them.\<close>
  "on_all cwd now env event path st =
     (if ends_with ''.ts'' path \<and> path \<noteq> ''server/index.ts'' then
        (case loadBackend cwd now env st of
           (Inr _, st') \<Rightarrow>
             emit (ConsoleLog ([CHR 0xC3, CHR 0xB0, CHR 0xC5, CHR 0xB8, CHR 0xE2, CHR 0x80, CHR 0x9D,
                                 CHR 0xE2, CHR 0x80, CHR 0x9E] @ '' Backend reloaded'')) st'
         | (Inl _, st') \<Rightarrow> emit (ConsoleError ''Failed to build backend'') st')
      else st)"

definition rebuilds :: "'h server \<Rightarrow> string list" where
  \<comment> \<open>the output files of the builds started so far.\<close>
  "rebuilds st = concat (map (\<lambda>e. case e of Build out \<Rightarrow> [out] | _ \<Rightarrow> []) (effects st))"

subsection \<open>Start-up\<close>

text \<open>
  What the main function reads from its environment: the outcome of the initial
  \<open>loadBackend\<close> and the clock reading it starts with, \<open>app.get("env")\<close>,
  \<open>process.env.PORT\<close>, whether the operating system refuses to bind the listener (the
  address is in use, the port is privileged), whether the prebuilt client directory exists
  (production), and whether \<open>setupVite\<close> rejects (development).
\<close>

record 'h startup_env =
  initial :: "'h rebuild_env"
  started_at :: int
  app_env :: string
  PORT :: "string option"
  bind_result :: "js_error option"
  static_dir_exists :: bool
  vite_result :: "js_error option"

definition white_space :: "string list" where
  \<comment> \<open>the characters \<open>parseInt\<close> skips at the start of its argument (white space and line
      terminators of ECMAScript), each as its UTF-8 bytes: TAB, LF, VT, FF, CR, SP, U+00A0,
      U+1680, U+2000 to U+200A, U+2028, U+2029, U+202F, U+205F, U+3000, U+FEFF.\<close>
  "white_space =
     [[CHR 0x09], [CHR 0x0A], [CHR 0x0B], [CHR 0x0C], [CHR 0x0D], [CHR 0x20],
      [CHR 0xC2, CHR 0xA0], [CHR 0xE1, CHR 0x9A, CHR 0x80],
      [CHR 0xE2, CHR 0x80, CHR 0x80], [CHR 0xE2, CHR 0x80, CHR 0x81],
      [CHR 0xE2, CHR 0x80, CHR 0x82], [CHR 0xE2, CHR 0x80, CHR 0x83],
      [CHR 0xE2, CHR 0x80, CHR 0x84], [CHR 0xE2, CHR 0x80, CHR 0x85],
      [CHR 0xE2, CHR 0x80, CHR 0x86], [CHR 0xE2, CHR 0x80, CHR 0x87],
      [CHR 0xE2, CHR 0x80, CHR 0x88], [CHR 0xE2, CHR 0x80, CHR 0x89],
      [CHR 0xE2, CHR 0x80, CHR 0x8A], [CHR 0xE2, CHR 0x80, CHR 0xA8],
      [CHR 0xE2, CHR 0x80, CHR 0xA9], [CHR 0xE2, CHR 0x80, CHR 0xAF],
      [CHR 0xE2, CHR 0x81, CHR 0x9F], [CHR 0xE3, CHR 0x80, CHR 0x80],
      [CHR 0xEF, CHR 0xBB, CHR 0xBF]]"

function trim_start :: "string \<Rightarrow> string" where
  "trim_start s =
     (case find (\<lambda>w. starts_with w s) white_space of
        None \<Rightarrow> s
      | Some w \<Rightarrow> trim_start (drop (length w) s))"
  by pat_completeness auto
termination
proof (relation "measure length")
  show "wf (measure length)" by simp
next
  fix s w :: string
  assume "find (\<lambda>w. starts_with w s) white_space = Some w"
  then have "w \<in> set white_space" and "starts_with w s"
    by (auto simp: find_Some_iff)
  then have w: "w \<noteq> []" and t: "take (length w) s = w"
    by (auto simp: white_space_def starts_with_def)
  from t have "length (take (length w) s) = length w" by simp
  then have "length w \<le> length s" by simp
  moreover from w have "0 < length w" by simp
  ultimately have "length s - length w < length s" by arith
  then show "(drop (length w) s, s) \<in> measure length" by simp
qed

declare trim_start.simps [simp del]

definition parseInt10 :: "string \<Rightarrow> int option" where
  \<comment> \<open>\<open>parseInt(input, 10)\<close>, \<open>None\<close> for \<open>NaN\<close>: leading white space is skipped, one sign
      is read, then the longest run of decimal digits; what follows is ignored. The
      JavaScript result is this integer rounded to a double (and \<open>-0\<close> for \<open>"-0"\<close>), which
      compares with the bounds of the port range as the integer does.\<close>
  "parseInt10 input =
     (let s = trim_start input;
          negative = starts_with ''-'' s;
          unsigned = (if starts_with ''-'' s \<or> starts_with ''+'' s then tl s else s);
          ds = takeWhile is_digit unsigned
      in if ds = [] then None
         else Some ((if negative then - 1 else 1) * int (parse_digits ds)))"

definition listen_port :: "string \<Rightarrow> nat option" where
  \<comment> \<open>the port \<open>app.listen(parseInt(s, 10), ...)\<close> accepts: Node's \<open>listen\<close> throws
      \<open>ERR_SOCKET_BAD_PORT\<close> before it does anything else unless the port is an integer from 0
      to 65535.\<close>
  "listen_port s =
     (case parseInt10 s of
        None \<Rightarrow> None
      | Some n \<Rightarrow> if 0 \<le> n \<and> n \<le> 65535 then Some (nat n) else None)"

definition port_source :: "string option \<Rightarrow> string" where
  \<comment> \<open>\<open>process.env.PORT || "3000"\<close>: an unset or empty variable gives the default.\<close>
  "port_source p = (case p of None \<Rightarrow> ''3000'' | Some s \<Rightarrow> if s = [] then ''3000'' else s)"

definition initial_server :: "'h server" where
  "initial_server = \<lparr>stack = [], effects = []\<rparr>"

definition main :: "string \<Rightarrow> 'h startup_env \<Rightarrow> (js_error + unit) \<times> 'h server" where
  \<comment> \<open>the async function run at module load; a result \<open>Inl\<close> is the error the process
      ends with (an exception or a rejection nobody handles). \<open>app.listen\<close> throws at once on
      a bad port. Otherwise \<open>Listen p h\<close> records that it returned a server; the bind takes
      place on the next tick, that is after the synchronous \<open>serveStatic\<close> and before
      \<open>setupVite\<close> can resolve. The server has no \<open>error\<close> listener (Express 4, whose
      \<open>"*"\<close> mount paths the source uses), so a failed bind ends the process.
      \<open>Listening p\<close> is the callback of \<open>app.listen\<close>, which logs
      \<open>Serving on http://localhost:p\<close>.\<close>
  "main cwd env =
     (case loadBackend cwd (started_at env) (initial env) initial_server of
        (r, st1) \<Rightarrow>
          (let st2 = (case r of
                        Inl _ \<Rightarrow> emit (ConsoleError ''Failed to build backend'') st1
                      | Inr _ \<Rightarrow> st1)
           in case listen_port (port_source (PORT env)) of
                None \<Rightarrow> (Inl BadPort, st2)
              | Some port \<Rightarrow>
                  (let st3 = emit (Listen port ''0.0.0.0'') st2
                   in if app_env env \<noteq> ''development'' then
                        (if static_dir_exists env then
                           (case bind_result env of
                              Some e \<Rightarrow> (Inl e, emit ServeStatic st3)
                            | None \<Rightarrow> (Inr (), emit (Listening port) (emit ServeStatic st3)))
                         else
                           (case bind_result env of
                              Some e \<Rightarrow> (Inl e, st3)
                            | None \<Rightarrow> (Inl StartupError, emit (Listening port) st3)))
                      else
                        (case bind_result env of
                           Some e \<Rightarrow> (Inl e, st3)
                         | None \<Rightarrow>
                             (case vite_result env of
                                Some e \<Rightarrow> (Inl e, emit (Listening port) st3)
                              | None \<Rightarrow>
                                  (Inr (),
                                   emit (Watch [''server/'', ''shared/''])
                                     (emit SetupVite (emit (Listening port) st3))))))))"

subsection \<open>Pruning old bundles\<close>

definition match_bundle_timestamp :: "string \<Rightarrow> string option" where
  \<comment> \<open>the capture group of \<open>file.match(/backend\\.dist\\.(\\d+)\\.cjs$/)\<close>, \<open>None\<close> when
      there is no match. The digits must reach from a literal \<open>backend.dist.\<close> to the
      final \<open>.cjs\<close>, so they are the longest run of digits before that suffix.\<close>
  "match_bundle_timestamp file =
     (if ends_with ''.cjs'' file then
        (let body = take (length file - 4) file;
             ds = rev (takeWhile is_digit (rev body));
             pre = take (length body - length ds) body
         in if ds \<noteq> [] \<and> ends_with ''backend.dist.'' pre then Some ds else None)
      else None)"

definition timestamp_of :: "string \<Rightarrow> nat" where
  \<comment> \<open>\<open>parseInt(file.match(...)?.[1] || "0")\<close>.\<close>
  "timestamp_of file =
     parse_digits (case match_bundle_timestamp file of Some ds \<Rightarrow> ds | None \<Rightarrow> ''0'')"

record bundle_entry =
  name :: string
  path :: string
  timestamp :: nat

definition is_bundle_file :: "string \<Rightarrow> bool" where
  "is_bundle_file file = (starts_with ''backend.dist.'' file \<and> ends_with ''.cjs'' file)"

definition exact_timestamps :: "string list \<Rightarrow> bool" where
  \<comment> \<open>every bundle file of the listing has a timestamp that a double holds exactly, so that
      \<open>parse_digits\<close> is what \<open>parseInt\<close> returns.\<close>
  "exact_timestamps files =
     list_all (\<lambda>f. timestamp_of f \<le> 2 ^ 53) (filter is_bundle_file files)"

definition dist_dir :: "string \<Rightarrow> string" where
  "dist_dir cwd = resolve_cwd cwd ''dist/server''"

definition bundle_entry_of :: "string \<Rightarrow> string \<Rightarrow> bundle_entry" where
  "bundle_entry_of distDir file =
     \<lparr>name = file, path = path_join distDir file, timestamp = timestamp_of file\<rparr>"

definition ranked :: "string \<Rightarrow> string list \<Rightarrow> bundle_entry list" where
  \<comment> \<open>\<open>bundleFiles.map(...).sort((a, b) => b.timestamp - a.timestamp)\<close>: the sort of
      ECMAScript 2019 is stable, and so is \<open>sort_key\<close>.\<close>
  "ranked distDir bundleFiles =
     sort_key (\<lambda>e. - int (timestamp e)) (map (bundle_entry_of distDir) bundleFiles)"

definition filesToDelete :: "string \<Rightarrow> string list \<Rightarrow> bundle_entry list" where
  "filesToDelete distDir files =
     (let bundleFiles = filter is_bundle_file files
      in if length bundleFiles > 2 then drop 2 (ranked distDir bundleFiles) else [])"

text \<open>
  The output directory: whether \<open>fs.access\<close> and \<open>fs.readdir\<close> succeed on it, its
  entries, and the entries whose \<open>fs.unlink\<close> is rejected by the operating system.
\<close>

record dist_fs =
  accessible :: bool
  readable :: bool
  entries :: "string list"
  locked :: "string list"

definition fs_access :: "dist_fs \<Rightarrow> js_error + unit" where
  "fs_access fs = (if accessible fs then Inr () else Inl FsError)"

definition fs_readdir :: "dist_fs \<Rightarrow> js_error + string list" where
  "fs_readdir fs = (if readable fs then Inr (entries fs) else Inl FsError)"

definition fs_unlink :: "string \<Rightarrow> string \<Rightarrow> dist_fs \<Rightarrow> js_error + dist_fs" where
  \<comment> \<open>\<open>fs.unlink(p)\<close> for a path \<open>p\<close> into the directory \<open>distDir\<close>.\<close>
  "fs_unlink distDir p fs =
     (case filter (\<lambda>f. path_join distDir f = p) (entries fs) of
        [] \<Rightarrow> Inl FsError
      | f # _ \<Rightarrow>
          if f \<in> set (locked fs) then Inl FsError
          else Inr (fs\<lparr>entries := removeAll f (entries fs)\<rparr>))"

definition unlink_ignoring :: "string \<Rightarrow> dist_fs \<Rightarrow> bundle_entry \<Rightarrow> dist_fs" where
  \<comment> \<open>the body of the \<open>forEach\<close>: \<open>try { await fs.unlink(file.path) } catch (err) { }\<close>.\<close>
  "unlink_ignoring distDir fs file =
     (case fs_unlink distDir (path file) fs of Inl _ \<Rightarrow> fs | Inr fs' \<Rightarrow> fs')"

definition cleanup_issued :: "string \<Rightarrow> dist_fs \<Rightarrow> (js_error + unit) \<times> bundle_entry list" where
  \<comment> \<open>\<open>cleanupOldBundles\<close> up to the point where its promise resolves: the result, and the
      entries whose unlink it has started without awaiting it.\<close>
  "cleanup_issued cwd fs =
     (let distDir = dist_dir cwd
      in case fs_access fs of
           Inl _ \<Rightarrow> (Inr (), [])
         | Inr _ \<Rightarrow>
             (case fs_readdir fs of
                Inl _ \<Rightarrow> (Inr (), [])
              | Inr files \<Rightarrow> (Inr (), filesToDelete distDir files)))"

definition cleanupOldBundles :: "string \<Rightarrow> dist_fs \<Rightarrow> (js_error + unit) \<times> dist_fs" where
  \<comment> \<open>\<open>cleanupOldBundles\<close> together with the unlinks it started, once all of them have
      settled and with nothing else touching the directory meanwhile.\<close>
  "cleanupOldBundles cwd fs =
     (case cleanup_issued cwd fs of
        (r, dels) \<Rightarrow> (r, foldl (unlink_ignoring (dist_dir cwd)) fs dels))"

section \<open>The logging middleware (server/index.ts)\<close>

text \<open>
  The logger measures and cuts strings with \<open>.length\<close> and \<open>.slice\<close>, which count UTF-16
  code units, so its strings are lists of 16-bit words.
\<close>

type_synonym ustring = "16 word list"

definition ascii :: "string \<Rightarrow> ustring" where
  "ascii s = map (\<lambda>c. of_nat (of_char c)) s"

definition ellipsis :: ustring where
  \<comment> \<open>the marker between the quotes after \<open>.slice(0, 100) +\<close> and \<open>.slice(0, 79) +\<close>: in the
      source file it is the three characters U+00E2, U+20AC, U+00A6.\<close>
  "ellipsis = [0xE2, 0x20AC, 0xA6]"

text \<open>The outcomes of \<open>JSON.stringify(v)\<close>: it throws, returns \<open>undefined\<close>, or returns a string.\<close>

datatype stringified = Throws | Undefined | Text ustring

text \<open>
  What the finish listener reads from the request. \<open>req_body\<close> is \<open>None\<close> when
  \<open>req.body && Object.keys(req.body).length > 0\<close> is false and otherwise holds the outcome
  of \<open>JSON.stringify(req.body)\<close>; the same for \<open>req_query\<close>.
\<close>

record request =
  req_method :: ustring
  req_path :: ustring
  req_body :: "stringified option"
  req_query :: "stringified option"

definition interpolate :: "ustring \<Rightarrow> stringified \<Rightarrow> js_error + ustring" where
  \<comment> \<open>\<open>logLine += ` :: label: ${JSON.stringify(v)}`\<close>, the label given with its separators.\<close>
  "interpolate label r =
     (case r of
        Throws \<Rightarrow> Inl TypeError
      | Undefined \<Rightarrow> Inr (label @ ascii ''undefined'')
      | Text s \<Rightarrow> Inr (label @ s))"

definition trimmedResponse :: "ustring \<Rightarrow> ustring" where
  "trimmedResponse responseStr =
     (if length responseStr > 100 then take 100 responseStr @ ellipsis else responseStr)"

definition response_part :: "stringified \<Rightarrow> js_error + ustring" where
  \<comment> \<open>the branch \<open>if (capturedJsonResponse)\<close>; reading \<open>.length\<close> of \<open>undefined\<close> throws.\<close>
  "response_part r =
     (case r of
        Throws \<Rightarrow> Inl TypeError
      | Undefined \<Rightarrow> Inl TypeError
      | Text responseStr \<Rightarrow> Inr (ascii '' :: response: '' @ trimmedResponse responseStr))"

definition optional_part :: "'x option \<Rightarrow> ('x \<Rightarrow> js_error + ustring) \<Rightarrow> js_error + ustring" where
  "optional_part v f = (case v of None \<Rightarrow> Inr [] | Some x \<Rightarrow> f x)"

definition cap_line :: "ustring \<Rightarrow> ustring" where
  "cap_line logLine = (if length logLine > 200 then take 79 logLine @ ellipsis else logLine)"

definition compose_line ::
  "('b \<Rightarrow> bool) \<Rightarrow> ('b \<Rightarrow> stringified) \<Rightarrow> request \<Rightarrow> nat \<Rightarrow> int \<Rightarrow> 'b option
     \<Rightarrow> js_error + ustring" where
  \<comment> \<open>\<open>logLine\<close> as it stands before the length check; \<open>truthy\<close> and \<open>stringify\<close> are
      JavaScript's truthiness and \<open>JSON.stringify\<close> on the values handed to \<open>res.json\<close>.\<close>
  "compose_line truthy stringify req statusCode duration captured =
     (case optional_part (req_body req) (interpolate (ascii '' :: body: '')) of
        Inl e \<Rightarrow> Inl e
      | Inr body_part \<Rightarrow>
          (case optional_part (req_query req) (interpolate (ascii '' :: query: '')) of
             Inl e \<Rightarrow> Inl e
           | Inr query_part \<Rightarrow>
               (case optional_part (case captured of
                                      None \<Rightarrow> None
                                    | Some b \<Rightarrow> if truthy b then Some (stringify b) else None)
                       response_part of
                  Inl e \<Rightarrow> Inl e
                | Inr resp_part \<Rightarrow>
                    Inr (req_method req @ ascii '' '' @ req_path req @ ascii '' ''
                         @ ascii (number_to_string (int statusCode)) @ ascii '' in ''
                         @ ascii (number_to_string duration) @ ascii ''ms''
                         @ body_part @ query_part @ resp_part))))"

definition on_finish ::
  "('b \<Rightarrow> bool) \<Rightarrow> ('b \<Rightarrow> stringified) \<Rightarrow> request \<Rightarrow> nat \<Rightarrow> int \<Rightarrow> 'b option
     \<Rightarrow> js_error + ustring option" where
  \<comment> \<open>the listener of \<open>res.on("finish", ...)\<close>: the argument it passes to \<open>log\<close>, if any.\<close>
  "on_finish truthy stringify req statusCode duration captured =
     (if starts_with (ascii ''/api'') (req_path req) then
        (case compose_line truthy stringify req statusCode duration captured of
           Inl e \<Rightarrow> Inl e
         | Inr logLine \<Rightarrow> Inr (Some (cap_line logLine)))
      else Inr None)"

definition log_message :: "ustring \<Rightarrow> ustring \<Rightarrow> ustring \<Rightarrow> ustring" where
  \<comment> \<open>\<open>log\<close> of server/vite.ts: \<open>`${formattedTime} [${source}] ${message}`\<close>.\<close>
  "log_message formattedTime source message =
     formattedTime @ ascii '' ['' @ source @ ascii ''] '' @ message"

text \<open>
  A route handler, as far as the response object is concerned. It calls the function it
  finds at \<open>res.json\<close>, as a method of \<open>res\<close> or detached from it
  (\<open>const send = res.json; send(body)\<close>, \<open>promise.then(res.json)\<close>), and goes on with the
  value returned; it changes the response by other means; it looks at it; or it is done.
\<close>

datatype receiver = Res | Detached

datatype ('b, 'a, 'r, 'res) handler =
    Done
  | CallJson receiver 'b "'a list" "'r \<Rightarrow> ('b, 'a, 'r, 'res) handler"
  | Mutate "'res \<Rightarrow> 'res" "('b, 'a, 'r, 'res) handler"
  | Observe "'res \<Rightarrow> ('b, 'a, 'r, 'res) handler"

text \<open>
  Without the middleware \<open>res.json\<close> is Express's function, which works on its receiver:
  \<open>originalResJson this bodyJson args\<close> takes the response to a returned value (or an
  exception, as a value of \<open>'r\<close>) and the response it leaves.
\<close>

primrec run_plain ::
  "('b, 'a, 'r, 'res) handler \<Rightarrow> (receiver \<Rightarrow> 'b \<Rightarrow> 'a list \<Rightarrow> 'res \<Rightarrow> 'r \<times> 'res) \<Rightarrow> 'res
     \<Rightarrow> 'res" where
  "run_plain Done originalResJson res = res"
| "run_plain (CallJson this bodyJson args k) originalResJson res =
     (case originalResJson this bodyJson args res of
        (r, res') \<Rightarrow> run_plain (k r) originalResJson res')"
| "run_plain (Mutate f h) originalResJson res = run_plain h originalResJson (f res)"
| "run_plain (Observe k) originalResJson res = run_plain (k res) originalResJson res"

definition wrapped_json ::
  "(receiver \<Rightarrow> 'b \<Rightarrow> 'a list \<Rightarrow> 'res \<Rightarrow> 'r \<times> 'res) \<Rightarrow> receiver \<Rightarrow> 'b \<Rightarrow> 'a list
     \<Rightarrow> 'b option \<times> 'res \<Rightarrow> 'r \<times> 'b option \<times> 'res" where
  \<comment> \<open>the function the middleware assigns to \<open>res.json\<close>; the first component of the state
      is \<open>capturedJsonResponse\<close>. Whatever its own receiver \<open>this\<close> is, it calls
      \<open>originalResJson.apply(res, [bodyJson, ...args])\<close> with the \<open>res\<close> of the middleware.\<close>
  "wrapped_json originalResJson this bodyJson args s =
     (case originalResJson Res bodyJson args (snd s) of (r, res') \<Rightarrow> (r, Some bodyJson, res'))"

primrec run_logged ::
  "('b, 'a, 'r, 'res) handler \<Rightarrow> (receiver \<Rightarrow> 'b \<Rightarrow> 'a list \<Rightarrow> 'res \<Rightarrow> 'r \<times> 'res)
     \<Rightarrow> 'b option \<times> 'res \<Rightarrow> 'b option \<times> 'res" where
  "run_logged Done originalResJson s = s"
| "run_logged (CallJson this bodyJson args k) originalResJson s =
     (case wrapped_json originalResJson this bodyJson args s of
        (r, s') \<Rightarrow> run_logged (k r) originalResJson s')"
| "run_logged (Mutate f h) originalResJson s = run_logged h originalResJson (fst s, f (snd s))"
| "run_logged (Observe k) originalResJson s = run_logged (k (snd s)) originalResJson s"

primrec calls_on_res :: "('b, 'a, 'r, 'res) handler \<Rightarrow> bool" where
  \<comment> \<open>every call of \<open>res.json\<close> the handler can make is a method call on \<open>res\<close>.\<close>
  "calls_on_res Done = True"
| "calls_on_res (CallJson this bodyJson args k) = (this = Res \<and> (\<forall>r. calls_on_res (k r)))"
| "calls_on_res (Mutate f h) = calls_on_res h"
| "calls_on_res (Observe k) = (\<forall>res. calls_on_res (k res))"

definition logging_middleware ::
  "('b, 'a, 'r, 'res) handler \<Rightarrow> (receiver \<Rightarrow> 'b \<Rightarrow> 'a list \<Rightarrow> 'res \<Rightarrow> 'r \<times> 'res)
     \<Rightarrow> ('res \<Rightarrow> nat) \<Rightarrow> ('b \<Rightarrow> bool) \<Rightarrow> ('b \<Rightarrow> stringified) \<Rightarrow> request \<Rightarrow> int \<Rightarrow> 'res
     \<Rightarrow> 'res \<times> (js_error + ustring option)" where
  \<comment> \<open>one request through the middleware: the rest of the chain (\<open>next()\<close>) runs against
      the wrapped \<open>res.json\<close> with nothing captured at first, and the finish listener runs
      on the response the chain leaves, \<open>status_of\<close> reading \<open>res.statusCode\<close>. The result
      is that response and the outcome of the listener: what it passes to \<open>log\<close>, or the
      error it throws, which nothing catches.\<close>
  "logging_middleware next_handlers originalResJson status_of truthy stringify req duration res =
     (case run_logged next_handlers originalResJson (None, res) of
        (captured, res') \<Rightarrow>
          (res', on_finish truthy stringify req (status_of res') duration captured))"

section \<open>The development HTML fallback (server/vite.ts)\<close>





datatype response = Respond nat "(string \<times> string) list" string | Next js_error


section \<open>Example inputs\<close>

text \<open>Concrete environments, directories and requests on which the properties below are run.\<close>

definition same_ms_env :: "nat rebuild_env" where
  "same_ms_env = \<lparr>build_result = None, import_result = Inr (Registrar (\<lambda>stk. (Inr (), stk @ [7])))\<rparr>"

definition failing_start :: "nat startup_env" where
  "failing_start =
     \<lparr>initial = \<lparr>build_result = Some BuildError, import_result = Inl ModuleLoadError\<rparr>,
      started_at = 1700000000000, app_env = ''production'', PORT = None,
      bind_result = None, static_dir_exists = True, vite_result = None\<rparr>"

definition failing_start_bad_port :: "nat startup_env" where
  "failing_start_bad_port = failing_start\<lparr>PORT := Some ''abc''\<rparr>"

definition failing_start_dev_in_use :: "nat startup_env" where
  "failing_start_dev_in_use =
     failing_start\<lparr>app_env := ''development'', PORT := Some ''8080'',
       bind_result := Some BindError\<rparr>"

definition locked_oldest :: dist_fs where
  "locked_oldest =
     \<lparr>accessible = True, readable = True,
      entries = [''backend.dist.1.cjs'', ''backend.dist.2.cjs'', ''backend.dist.3.cjs''],
      locked = [''backend.dist.1.cjs'']\<rparr>"

definition two_malformed :: dist_fs where
  "two_malformed =
     \<lparr>accessible = True, readable = True,
      entries = [''backend.dist.1.cjs'', ''backend.dist.abc.cjs'', ''backend.dist.xyz.cjs''],
      locked = []\<rparr>"

definition one_malformed :: dist_fs where
  "one_malformed =
     \<lparr>accessible = True, readable = True,
      entries = [''backend.dist.5.cjs'', ''backend.dist.7.cjs'', ''backend.dist.abc.cjs'',
                 ''notes.txt''],
      locked = []\<rparr>"

definition hello_request :: request where
  "hello_request =
     \<lparr>req_method = ascii ''GET'', req_path = ascii ''/api/hello'',
      req_body = None, req_query = None\<rparr>"

definition long_body_request :: request where
  "long_body_request =
     \<lparr>req_method = ascii ''POST'', req_path = ascii ''/api/items'',
      req_body = Some (Text (replicate 300 0x78)), req_query = None\<rparr>"


definition vite_client_injected :: "string \<Rightarrow> string \<Rightarrow> js_error + string" where
  \<comment> \<open>stands in for Vite's \<open>transformIndexHtml\<close> in the examples: as Vite does in
      development, it adds the script of its client and keeps the entry script tag.\<close>
  \<open>vite_client_injected url html =
     Inr (''<script type="module" src="/@vite/client"></script>'' @ html)\<close>

record http_response =
  status_code :: nat
  sent_body :: "string option"

definition express_json ::
  "receiver \<Rightarrow> string \<Rightarrow> unit list \<Rightarrow> http_response \<Rightarrow> (js_error + unit) \<times> http_response" where
  \<comment> \<open>stands in for Express's own \<open>res.json\<close> in the examples, as far as its receiver goes:
      the function reads \<open>this.app\<close> and calls \<open>this.send\<close>, so with a receiver that is not
      the response it throws a TypeError and nothing is sent.\<close>
  "express_json this bodyJson args res =
     (case this of
        Res \<Rightarrow> (Inr (), res\<lparr>sent_body := Some bodyJson\<rparr>)
      | Detached \<Rightarrow> (Inl TypeError, res))"

definition method_hello :: "(string, unit, js_error + unit, http_response) handler" where
  \<comment> \<open>the route of server/routes/hello.ts: \<open>res.json({ message: "Hello, world!" })\<close>.\<close>
  \<open>method_hello = CallJson Res ''{"message":"Hello, world!"}'' [] (\<lambda>r. Done)\<close>

definition detached_hello :: "(string, unit, js_error + unit, http_response) handler" where
  \<comment> \<open>the same route answering through a detached \<open>res.json\<close>; when the call throws, the
      error handler of index.ts answers
      \<open>res.status(500).json({ message: "Internal Server Error" })\<close>.\<close>
  \<open>detached_hello =
     CallJson Detached ''{"message":"Hello, world!"}'' []
       (\<lambda>r. case r of
               Inr _ \<Rightarrow> Done
             | Inl _ \<Rightarrow>
                 Mutate (\<lambda>res. res\<lparr>status_code := 500\<rparr>)
                   (CallJson Res ''{"message":"Internal Server Error"}'' [] (\<lambda>r. Done)))\<close>

definition fresh_response :: http_response where
  "fresh_response = \<lparr>status_code = 200, sent_body = None\<rparr>"

section \<open>Properties: decimal numbers and artifact names\<close>

lemma digit_val_digit_char: "d < 10 \<Longrightarrow> digit_val (digit_char d) = d"
proof -
  assume "d < 10"
  then consider "d = 0" | "d = 1" | "d = 2" | "d = 3" | "d = 4" | "d = 5" | "d = 6" | "d = 7"
    | "d = 8" | "d = 9" by atomize_elim arith
  then show ?thesis by cases (simp_all add: digit_val_def digit_char_def)
qed

lemma is_digit_digit_char: "d < 10 \<Longrightarrow> is_digit (digit_char d)"
proof -
  assume "d < 10"
  then consider "d = 0" | "d = 1" | "d = 2" | "d = 3" | "d = 4" | "d = 5" | "d = 6" | "d = 7"
    | "d = 8" | "d = 9" by atomize_elim arith
  then show ?thesis by cases (simp_all add: is_digit_def digit_char_def)
qed

lemma parse_digits_snoc: "parse_digits (ds @ [c]) = 10 * parse_digits ds + digit_val c"
  by (simp add: parse_digits_def)

lemma parse_show_nat: "parse_digits (show_nat n) = n"
proof (induction n rule: show_nat.induct)
  case (1 n)
  show ?case
  proof (cases "n < 10")
    case True
    then show ?thesis
      by (subst show_nat.simps) (simp add: parse_digits_def digit_val_digit_char)
  next
    case False
    with 1 have "parse_digits (show_nat (n div 10)) = n div 10" by simp
    with False show ?thesis
      by (subst show_nat.simps) (simp add: parse_digits_snoc digit_val_digit_char)
  qed
qed

lemma show_nat_digits: "list_all is_digit (show_nat n)"
proof (induction n rule: show_nat.induct)
  case (1 n)
  show ?case
  proof (cases "n < 10")
    case True
    then show ?thesis by (subst show_nat.simps) (simp add: is_digit_digit_char)
  next
    case False
    with 1 have "list_all is_digit (show_nat (n div 10))" by simp
    with False show ?thesis
      by (subst show_nat.simps) (simp add: is_digit_digit_char)
  qed
qed

lemma show_nat_nonempty: "show_nat n \<noteq> []"
  by (subst show_nat.simps) simp

lemma show_nat_inj: "show_nat m = show_nat n \<longleftrightarrow> m = n"
  by (metis parse_show_nat)

lemma show_nat_no_minus: "show_nat n \<noteq> CHR ''-'' # s"
proof
  assume "show_nat n = CHR ''-'' # s"
  with show_nat_digits [of n] have "is_digit CHR ''-''" by simp
  then show False by (simp add: is_digit_def)
qed

lemma number_to_string_inj: "number_to_string i = number_to_string j \<longleftrightarrow> i = j"
proof
  assume eq: "number_to_string i = number_to_string j"
  show "i = j"
  proof (cases "i < 0")
    case True
    note i = this
    show ?thesis
    proof (cases "j < 0")
      case True
      with i eq have "show_nat (nat (- i)) = show_nat (nat (- j))"
        by (simp add: number_to_string_def)
      then have "nat (- i) = nat (- j)" by (simp add: show_nat_inj)
      with i True show ?thesis by simp
    next
      case False
      with i eq show ?thesis
        by (simp add: number_to_string_def show_nat_no_minus [symmetric])
    qed
  next
    case False
    note i = this
    show ?thesis
    proof (cases "j < 0")
      case True
      with i eq show ?thesis by (simp add: number_to_string_def show_nat_no_minus)
    next
      case False
      with i eq have "show_nat (nat i) = show_nat (nat j)"
        by (simp add: number_to_string_def)
      then have "nat i = nat j" by (simp add: show_nat_inj)
      with i False show ?thesis by simp
    qed
  qed
qed simp

lemma outfile_inj: "outfile cwd s = outfile cwd t \<longleftrightarrow> s = t"
  by (simp add: outfile_def resolve_cwd_def artifact_name_def number_to_string_inj)

subsection \<open>The regular expression and the names the loader writes\<close>

lemma ends_with_append: "ends_with p (a @ p)"
  by (simp add: ends_with_def)

lemma ends_with_split: "ends_with p s \<Longrightarrow> s = take (length s - length p) s @ p"
  by (metis append_take_drop_id ends_with_def)

lemma ends_with_iff: "ends_with p s \<longleftrightarrow> (\<exists>a. s = a @ p)"
  using ends_with_append ends_with_split by metis

lemma starts_with_append: "starts_with p (p @ b)"
  by (simp add: starts_with_def)

lemma trailing_digits:
  assumes "list_all is_digit ds" and "\<not> is_digit c"
  shows "rev (takeWhile is_digit (rev (a @ c # ds))) = ds"
proof -
  have "takeWhile is_digit (rev ds @ c # rev a) = rev ds @ takeWhile is_digit (c # rev a)"
    by (rule takeWhile_append2) (use assms in \<open>simp add: list_all_iff\<close>)
  with assms show ?thesis by simp
qed

lemma trailing_digits_suffix:
  "xs = take (length xs - length (takeWhile P (rev xs))) xs @ rev (takeWhile P (rev xs))"
proof -
  have "rev xs = takeWhile P (rev xs) @ dropWhile P (rev xs)" by simp
  then have "xs = rev (dropWhile P (rev xs)) @ rev (takeWhile P (rev xs))"
    by (metis rev_append rev_rev_ident)
  moreover from this
  have "take (length xs - length (takeWhile P (rev xs))) xs = rev (dropWhile P (rev xs))"
    by (metis append_eq_conv_conj diff_add_inverse2 length_append length_rev)
  ultimately show ?thesis by simp
qed

lemma match_bundle_timestampI:
  "ends_with ''.cjs'' file \<Longrightarrow> body = take (length file - 4) file \<Longrightarrow>
   ds = rev (takeWhile is_digit (rev body)) \<Longrightarrow> ds \<noteq> [] \<Longrightarrow>
   ends_with ''backend.dist.'' (take (length body - length ds) body) \<Longrightarrow>
   match_bundle_timestamp file = Some ds"
  by (simp add: match_bundle_timestamp_def Let_def)

lemma match_bundle_timestamp_iff:
  "match_bundle_timestamp file = Some ds \<longleftrightarrow>
   (\<exists>pre. file = pre @ ''backend.dist.'' @ ds @ ''.cjs'' \<and> ds \<noteq> [] \<and> list_all is_digit ds)"
proof
  assume m: "match_bundle_timestamp file = Some ds"
  let ?body = "take (length file - 4) file"
  let ?ds = "rev (takeWhile is_digit (rev ?body))"
  let ?pre = "take (length ?body - length ?ds) ?body"
  from m have e: "ends_with ''.cjs'' file"
    by (simp add: match_bundle_timestamp_def split: if_splits)
  with m have ds: "?ds = ds" and ne: "ds \<noteq> []" and p: "ends_with ''backend.dist.'' ?pre"
    by (auto simp: match_bundle_timestamp_def Let_def split: if_splits)
  have "length ''.cjs'' = 4" by simp
  with e have f: "file = ?body @ ''.cjs''"
    using ends_with_split [of "''.cjs''" "file"] by (simp only:)
  have b: "?body = ?pre @ ?ds"
    using trailing_digits_suffix [of ?body is_digit] by simp
  from p obtain a where a: "?pre = a @ ''backend.dist.''"
    unfolding ends_with_iff by blast
  have dig: "list_all is_digit ?ds"
    by (simp add: list_all_iff) (meson set_takeWhileD)
  have "file = a @ ''backend.dist.'' @ ds @ ''.cjs''"
    using f b a ds by (metis append.assoc)
  with ne dig ds show "\<exists>pre. file = pre @ ''backend.dist.'' @ ds @ ''.cjs'' \<and> ds \<noteq> []
      \<and> list_all is_digit ds"
    by blast
next
  assume "\<exists>pre. file = pre @ ''backend.dist.'' @ ds @ ''.cjs'' \<and> ds \<noteq> [] \<and> list_all is_digit ds"
  then obtain pre where f: "file = pre @ ''backend.dist.'' @ ds @ ''.cjs''"
    and ne: "ds \<noteq> []" and dig: "list_all is_digit ds" by blast
  define whole where "whole = pre @ ''backend.dist.'' @ ds"
  have fw: "file = whole @ ''.cjs''"
    by (simp add: f whole_def)
  have e: "ends_with ''.cjs'' file"
    unfolding fw by (rule ends_with_append)
  have nd: "\<not> is_digit CHR ''.''" by (simp add: is_digit_def)
  show "match_bundle_timestamp file = Some ds"
  proof (rule match_bundle_timestampI [where body = whole])
    show "ends_with ''.cjs'' file" by (rule e)
    show "whole = take (length file - 4) file" by (simp add: fw)
    have "whole = (pre @ ''backend.dist'') @ CHR ''.'' # ds"
      by (simp add: whole_def)
    then show "ds = rev (takeWhile is_digit (rev whole))"
      using trailing_digits [OF dig nd, of "pre @ ''backend.dist''"] by (simp only:)
    show "ds \<noteq> []" by (rule ne)
    have "take (length whole - length ds) whole = pre @ ''backend.dist.''"
      by (simp add: whole_def)
    then show "ends_with ''backend.dist.'' (take (length whole - length ds) whole)"
      using ends_with_append [of "''backend.dist.''" pre] by (simp only:)
  qed
qed

lemma artifact_is_bundle_file: "is_bundle_file (artifact_name t)"
proof -
  have "starts_with ''backend.dist.'' (''backend.dist.'' @ number_to_string t @ ''.cjs'')"
    by (rule starts_with_append)
  moreover have "ends_with ''.cjs'' ((''backend.dist.'' @ number_to_string t) @ ''.cjs'')"
    by (rule ends_with_append)
  ultimately show ?thesis by (simp add: is_bundle_file_def artifact_name_def)
qed

lemma timestamp_of_artifact: "timestamp_of (artifact_name (int n)) = n"
proof -
  have "match_bundle_timestamp (artifact_name (int n)) = Some (show_nat n)"
    unfolding match_bundle_timestamp_iff
    using show_nat_nonempty [of n] show_nat_digits [of n]
    by (auto simp: artifact_name_def number_to_string_def)
  then show ?thesis by (simp add: timestamp_of_def parse_show_nat)
qed

section \<open>Properties: loading, watching, start-up\<close>

lemma effects_emit: "effects (emit e st) = effects st @ [e]"
  by (simp add: emit_def)

lemma stack_emit: "stack (emit e st) = stack st"
  by (simp add: emit_def)

lemma rebuilds_emit:
  "rebuilds (emit e st) = rebuilds st @ (case e of Build out \<Rightarrow> [out] | _ \<Rightarrow> [])"
  by (simp add: rebuilds_def emit_def)

lemma rebuilds_stack_update: "rebuilds (st\<lparr>stack := stk\<rparr>) = rebuilds st"
  by (simp add: rebuilds_def)

lemma rebuilds_loadBackend:
  "rebuilds (snd (loadBackend cwd now env st)) = rebuilds st @ [outfile cwd now]"
  by (simp add: loadBackend_def Let_def rebuilds_emit rebuilds_stack_update
      split: option.split sum.split registrar_export.split prod.split)

lemma loadBackend_build_fails:
  "build_result env = Some e \<Longrightarrow>
   loadBackend cwd now env st = (Inl e, emit (Build (outfile cwd now)) st)"
  by (simp add: loadBackend_def Let_def)

text \<open>
  C2. A rebuild whose bundle step fails leaves the route table as it was: \<open>loadBackend\<close>
  rejects right after starting the build, the watcher's handler catches the rejection and
  reports it on the console, and the router's stack is the one from before the event.
\<close>

theorem failed_rebuild_keeps_routes:
  assumes "build_result env = Some e"
    and "ends_with ''.ts'' p" and "p \<noteq> ''server/index.ts''"
  shows "loadBackend cwd now env st = (Inl e, emit (Build (outfile cwd now)) st)
    \<and> stack (on_all cwd now env ev p st) = stack st
    \<and> effects (on_all cwd now env ev p st)
        = effects st @ [Build (outfile cwd now), ConsoleError ''Failed to build backend'']"
  using assms by (simp add: on_all_def loadBackend_build_fails effects_emit stack_emit)

theorem failed_rebuild_keeps_routes_witness:
  "build_result \<lparr>build_result = Some BuildError, import_result = Inl ModuleLoadError\<rparr> = Some BuildError
   \<and> ends_with ''.ts'' ''server/backend.ts'' \<and> ''server/backend.ts'' \<noteq> ''server/index.ts''
   \<and> stack (on_all ''/app'' 1700000000000
        \<lparr>build_result = Some BuildError, import_result = Inl ModuleLoadError\<rparr>
        Change ''server/backend.ts'' \<lparr>stack = [1::nat, 2], effects = []\<rparr>) = [1, 2]"
  using failed_rebuild_keeps_routes [of
      "\<lparr>build_result = Some BuildError, import_result = Inl ModuleLoadError\<rparr>" BuildError
      "''server/backend.ts''" "''/app''" 1700000000000
      "\<lparr>stack = [1::nat, 2], effects = []\<rparr>" Change]
  by (simp add: ends_with_def)

text \<open>
  C4. When the imported module has no \<open>registerRoutes\<close> export, \<open>loadBackend\<close> reports
  it on the console and does not touch the router's stack; it still resolves and schedules
  the clean-up.
\<close>

theorem missing_export_skips_swap:
  assumes "build_result env = None" and "import_result env = Inr NoExport"
  shows "fst (loadBackend cwd now env st) = Inr ()
    \<and> stack (snd (loadBackend cwd now env st)) = stack st
    \<and> effects (snd (loadBackend cwd now env st))
        = effects st @ [Build (outfile cwd now), Import (outfile cwd now),
            ConsoleError ''Backend module has no registerRoutes export!'', ScheduleCleanup]"
  using assms by (simp add: loadBackend_def Let_def effects_emit stack_emit)

theorem missing_export_skips_swap_witness:
  "build_result \<lparr>build_result = None, import_result = Inr NoExport\<rparr> = None
   \<and> import_result \<lparr>build_result = None, import_result = Inr (NoExport :: nat registrar_export)\<rparr>
       = Inr NoExport
   \<and> stack (snd (loadBackend ''/app'' 1700000000000
        \<lparr>build_result = None, import_result = Inr NoExport\<rparr>
        \<lparr>stack = [1::nat, 2], effects = []\<rparr>)) = [1, 2]"
  using missing_export_skips_swap [of
      "\<lparr>build_result = None, import_result = Inr NoExport\<rparr>"
      "''/app''" 1700000000000 "\<lparr>stack = [1::nat, 2], effects = []\<rparr>"]
  by simp



text \<open>
  C6, as amended. The token in an artifact's name is the clock reading \<open>Date.now()\<close> at the
  start of the build, and the name is an injective function of it: two builds get the same
  output file exactly when their clock readings are equal.
\<close>

theorem artifact_name_by_clock:
  "rebuilds (snd (loadBackend cwd t2 env2 (snd (loadBackend cwd t1 env1 st))))
     = rebuilds st @ [outfile cwd t1, outfile cwd t2]
   \<and> (outfile cwd t1 = outfile cwd t2 \<longleftrightarrow> t1 = t2)"
  by (simp add: rebuilds_loadBackend outfile_inj)

text \<open>
  C6 as stated fails: two builds started within the same millisecond write the same file.
\<close>

theorem same_millisecond_same_artifact:
  "rebuilds (snd (loadBackend ''/app'' 1700000000000 same_ms_env
      (snd (loadBackend ''/app'' 1700000000000 same_ms_env initial_server))))
   = [''/app/dist/server/backend.dist.1700000000000.cjs'',
      ''/app/dist/server/backend.dist.1700000000000.cjs'']"
  by (simp add: loadBackend_def same_ms_env_def Let_def emit_def initial_server_def
      rebuilds_def outfile_def resolve_cwd_def artifact_name_def
      number_to_string_def show_nat.simps digit_char_def)

lemma effects_loadBackend_no_listening:
  "Listening p \<notin> set (effects (snd (loadBackend cwd now env initial_server)))"
  by (simp add: loadBackend_def Let_def emit_def initial_server_def
      split: option.split sum.split registrar_export.split prod.split)

lemmas startup_eval =
  main_def loadBackend_def Let_def emit_def initial_server_def port_source_def
  listen_port_def parseInt10_def trim_start.simps white_space_def starts_with_def
  is_digit_def parse_digits_def digit_val_def outfile_def resolve_cwd_def artifact_name_def
  number_to_string_def show_nat.simps digit_char_def

text \<open>
  C1 as stated fails: with an initial build that fails, the main function logs the failure
  and goes on to open the listener, which is bound and serves.
\<close>

theorem initial_failure_still_listens:
  "fst (loadBackend ''/app'' (started_at failing_start) (initial failing_start) initial_server)
     = Inl BuildError
   \<and> main ''/app'' failing_start
     = (Inr (), \<lparr>stack = [], effects =
          [Build ''/app/dist/server/backend.dist.1700000000000.cjs'',
           ConsoleError ''Failed to build backend'',
           Listen 3000 ''0.0.0.0'', ServeStatic, Listening 3000]\<rparr>)"
  by (simp add: failing_start_def startup_eval)

text \<open>
  C1, as amended. When the initial \<open>loadBackend\<close> fails, the failure is caught and logged as
  \<open>Failed to build backend\<close>, and the process goes on to \<open>app.listen\<close> with the route table
  that \<open>loadBackend\<close> left. A port that is not a number from 0 to 65535 makes \<open>app.listen\<close>
  throw, and start-up ends there. Otherwise the listener is requested next, on the
  configured port, and start-up continues as it does after a successful load: the server
  is bound unless the bind fails, and the process stays up exactly when the bind and the
  mode's own set-up succeed.
\<close>

theorem initial_failure_is_logged_then_listens:
  assumes "fst (loadBackend cwd (started_at env) (initial env) initial_server) = Inl e"
  shows "stack (snd (main cwd env))
      = stack (snd (loadBackend cwd (started_at env) (initial env) initial_server))
    \<and> (case listen_port (port_source (PORT env)) of
         None \<Rightarrow>
           fst (main cwd env) = Inl BadPort
           \<and> effects (snd (main cwd env))
             = effects (snd (loadBackend cwd (started_at env) (initial env) initial_server))
               @ [ConsoleError ''Failed to build backend'']
       | Some port \<Rightarrow>
           effects (snd (main cwd env))
             = effects (snd (loadBackend cwd (started_at env) (initial env) initial_server))
               @ [ConsoleError ''Failed to build backend'', Listen port ''0.0.0.0'']
               @ (if app_env env \<noteq> ''development''
                  then (if static_dir_exists env then [ServeStatic] else [])
                       @ (case bind_result env of None \<Rightarrow> [Listening port] | Some _ \<Rightarrow> [])
                  else (case bind_result env of
                          Some _ \<Rightarrow> []
                        | None \<Rightarrow>
                            Listening port
                            # (case vite_result env of
                                 Some _ \<Rightarrow> []
                               | None \<Rightarrow> [SetupVite, Watch [''server/'', ''shared/'']])))
           \<and> (Listening port \<in> set (effects (snd (main cwd env)))
                \<longleftrightarrow> bind_result env = None)
           \<and> (fst (main cwd env) = Inr ()
                \<longleftrightarrow> bind_result env = None
                    \<and> (if app_env env \<noteq> ''development'' then static_dir_exists env
                        else vite_result env = None)))"
proof (cases "loadBackend cwd (started_at env) (initial env) initial_server")
  case (Pair r st1)
  with assms have r: "r = Inl e" by simp
  have no: "Listening p \<notin> set (effects st1)" for p
    using effects_loadBackend_no_listening [of p cwd "started_at env" "initial env"] Pair
    by simp
  show ?thesis
  proof (cases "listen_port (port_source (PORT env))")
    case None
    with Pair r show ?thesis
      by (simp add: main_def Let_def effects_emit stack_emit)
  next
    case (Some port)
    with Pair r no [of port] show ?thesis
      by (simp add: main_def Let_def effects_emit stack_emit split: option.split)
  qed
qed

theorem initial_failure_is_logged_then_listens_witness:
  "fst (loadBackend ''/app'' (started_at failing_start) (initial failing_start) initial_server)
     = Inl BuildError
   \<and> listen_port (port_source (PORT failing_start)) = Some 3000
   \<and> stack (snd (main ''/app'' failing_start)) = ([] :: nat list)
   \<and> effects (snd (main ''/app'' failing_start))
     = [Build ''/app/dist/server/backend.dist.1700000000000.cjs'',
        ConsoleError ''Failed to build backend'', Listen 3000 ''0.0.0.0'', ServeStatic,
        Listening 3000]
   \<and> fst (main ''/app'' failing_start) = Inr ()"
  using initial_failure_is_logged_then_listens [of "''/app''" failing_start BuildError]
  by (simp add: failing_start_def startup_eval)

lemma bad_port_stops_startup:
  "main ''/app'' failing_start_bad_port
     = (Inl BadPort, \<lparr>stack = [], effects =
          [Build ''/app/dist/server/backend.dist.1700000000000.cjs'',
           ConsoleError ''Failed to build backend'']\<rparr>)"
  by (simp add: failing_start_bad_port_def failing_start_def startup_eval)

lemma failed_bind_stops_startup:
  "main ''/app'' failing_start_dev_in_use
     = (Inl BindError, \<lparr>stack = [], effects =
          [Build ''/app/dist/server/backend.dist.1700000000000.cjs'',
           ConsoleError ''Failed to build backend'', Listen 8080 ''0.0.0.0'']\<rparr>)"
  by (simp add: failing_start_dev_in_use_def failing_start_def startup_eval)

lemma listen_port_examples:
  "listen_port ''3000'' = Some 3000 \<and> listen_port '' 8080px'' = Some 8080
   \<and> listen_port ''abc'' = None \<and> listen_port ''99999'' = None \<and> listen_port ''-1'' = None
   \<and> listen_port ''+80'' = Some 80 \<and> listen_port [CHR 0xC2, CHR 0xA0, CHR ''7''] = Some 7"
  by (simp add: startup_eval)

section \<open>Properties: pruning\<close>

lemma name_bundle_entry_of: "name (bundle_entry_of d f) = f"
  by (simp add: bundle_entry_of_def)

lemma path_bundle_entry_of: "path (bundle_entry_of d f) = path_join d f"
  by (simp add: bundle_entry_of_def)

lemma timestamp_bundle_entry_of: "timestamp (bundle_entry_of d f) = timestamp_of f"
  by (simp add: bundle_entry_of_def)

lemma set_ranked: "set (ranked d fs) = bundle_entry_of d ` set fs"
  by (simp add: ranked_def)

lemma length_ranked: "length (ranked d fs) = length fs"
  by (simp add: ranked_def)

lemma sorted_ranked: "sorted (map (\<lambda>e. - int (timestamp e)) (ranked d fs))"
  by (simp add: ranked_def)

lemma mset_names_ranked: "mset (map name (ranked d fs)) = mset fs"
proof -
  have "mset (map name (ranked d fs)) = image_mset name (mset (map (bundle_entry_of d) fs))"
    by (simp add: ranked_def)
  also have "\<dots> = mset fs"
    by (simp add: image_mset.compositionality comp_def name_bundle_entry_of)
  finally show ?thesis .
qed

lemma set_names_ranked: "set (map name (ranked d fs)) = set fs"
  using mset_names_ranked [of d fs] by (metis set_mset_mset)

lemma distinct_names_ranked: "distinct fs \<Longrightarrow> distinct (map name (ranked d fs))"
  using mset_names_ranked [of d fs] by (metis mset_eq_imp_distinct_iff)

lemma ranked_entry: "e \<in> set (ranked d fs) \<Longrightarrow> e = bundle_entry_of d (name e)"
  by (auto simp: set_ranked name_bundle_entry_of)

lemma filesToDelete_drop:
  "filesToDelete d files = drop 2 (ranked d (filter is_bundle_file files))"
  by (simp add: filesToDelete_def Let_def length_ranked)

lemma kept_newer_than_deleted:
  assumes "k \<in> set (take 2 (ranked d fs))" and "x \<in> set (drop 2 (ranked d fs))"
  shows "timestamp x \<le> timestamp k"
proof -
  have "sorted (map (\<lambda>e. - int (timestamp e)) (take 2 (ranked d fs) @ drop 2 (ranked d fs)))"
    using sorted_ranked [of d fs] by simp
  then have "- int (timestamp k) \<le> - int (timestamp x)"
    using assms unfolding map_append sorted_append by auto
  then show ?thesis by simp
qed

lemma sorted_prefix_below:
  "sorted (map g xs) \<Longrightarrow> n \<le> length (filter (\<lambda>x. g x < c) xs) \<Longrightarrow>
   x \<in> set (take n xs) \<Longrightarrow> g x < (c::int)"
proof (induction xs arbitrary: n)
  case Nil
  then show ?case by simp
next
  case (Cons y ys)
  show ?case
  proof (cases n)
    case 0
    with Cons.prems show ?thesis by simp
  next
    case (Suc m)
    show ?thesis
    proof (cases "g y < c")
      case True
      with Cons.prems Suc have "m \<le> length (filter (\<lambda>x. g x < c) ys)" by simp
      moreover from Cons.prems have "sorted (map g ys)" by simp
      ultimately have "x \<in> set (take m ys) \<Longrightarrow> g x < c" using Cons.IH by blast
      with Cons.prems Suc True show ?thesis by auto
    next
      case False
      with Cons.prems have "\<forall>z \<in> set ys. \<not> g z < c" by auto
      then have "filter (\<lambda>x. g x < c) ys = []" by (simp add: filter_empty_conv)
      with Cons.prems Suc False show ?thesis by simp
    qed
  qed
qed

lemma filter_path_join: "filter (\<lambda>f. path_join d f = path_join d n) xs = filter (\<lambda>f. f = n) xs"
  by (simp add: path_join_def)

lemma unlink_ignoring_entries:
  "entries (unlink_ignoring d fs (bundle_entry_of d n))
     = filter (\<lambda>f. f \<noteq> n \<or> f \<in> set (locked fs)) (entries fs)"
proof (cases "filter (\<lambda>f. f = n) (entries fs)")
  case Nil
  then have "n \<notin> set (entries fs)" by (auto simp: filter_empty_conv)
  then have "filter (\<lambda>f. f \<noteq> n \<or> f \<in> set (locked fs)) (entries fs) = entries fs"
    by (auto simp: filter_id_conv)
  with Nil show ?thesis
    by (simp add: unlink_ignoring_def fs_unlink_def path_bundle_entry_of filter_path_join)
next
  case (Cons a as)
  then have "a \<in> set (filter (\<lambda>f. f = n) (entries fs))" by simp
  then have a: "a = n" by simp
  show ?thesis
  proof (cases "n \<in> set (locked fs)")
    case True
    then have "filter (\<lambda>f. f \<noteq> n \<or> f \<in> set (locked fs)) (entries fs) = entries fs"
      by (auto simp: filter_id_conv)
    with Cons a True show ?thesis
      by (simp add: unlink_ignoring_def fs_unlink_def path_bundle_entry_of filter_path_join)
  next
    case False
    then have "filter (\<lambda>f. f \<noteq> n \<or> f \<in> set (locked fs)) (entries fs)
        = removeAll n (entries fs)"
      by (auto simp: removeAll_filter_not_eq intro: filter_cong)
    with Cons a False show ?thesis
      by (simp add: unlink_ignoring_def fs_unlink_def path_bundle_entry_of filter_path_join)
  qed
qed

lemma unlink_ignoring_frame:
  "locked (unlink_ignoring d fs e) = locked fs
   \<and> accessible (unlink_ignoring d fs e) = accessible fs
   \<and> readable (unlink_ignoring d fs e) = readable fs"
  by (simp add: unlink_ignoring_def fs_unlink_def split: list.split)

lemma settle_unlinks:
  "entries (foldl (unlink_ignoring d) fs (map (bundle_entry_of d) ns))
     = filter (\<lambda>f. f \<notin> set ns \<or> f \<in> set (locked fs)) (entries fs)
   \<and> locked (foldl (unlink_ignoring d) fs (map (bundle_entry_of d) ns)) = locked fs"
proof (induction ns arbitrary: fs)
  case Nil
  show ?case by simp
next
  case (Cons n ns)
  let ?fs = "unlink_ignoring d fs (bundle_entry_of d n)"
  have "entries (foldl (unlink_ignoring d) ?fs (map (bundle_entry_of d) ns))
      = filter (\<lambda>f. f \<notin> set ns \<or> f \<in> set (locked fs)) (entries ?fs)"
    using Cons.IH [of ?fs] by (simp add: unlink_ignoring_frame)
  also have "\<dots> = filter (\<lambda>f. f \<notin> set (n # ns) \<or> f \<in> set (locked fs)) (entries fs)"
    by (auto simp: unlink_ignoring_entries intro: filter_cong)
  finally show ?case
    using Cons.IH [of ?fs] by (simp add: unlink_ignoring_frame)
qed

lemma ranked_as_map: "xs = map (bundle_entry_of d) (map name xs)"
  if "set xs \<subseteq> set (ranked d fs)"
  using that by (induction xs) (auto dest: ranked_entry)

lemmas prune_eval =
  cleanupOldBundles_def cleanup_issued_def fs_access_def fs_readdir_def filesToDelete_def
  ranked_def bundle_entry_of_def timestamp_of_def match_bundle_timestamp_def is_bundle_file_def
  starts_with_def ends_with_def is_digit_def parse_digits_def digit_val_def
  unlink_ignoring_def fs_unlink_def path_join_def dist_dir_def resolve_cwd_def Let_def
  exact_timestamps_def

text \<open>
  C3 as stated fails: a bundle whose unlink is rejected stays, so three bundle files remain
  after the pass, with nothing raised.
\<close>

theorem undeletable_bundle_remains:
  "fst (cleanupOldBundles ''/app'' locked_oldest) = Inr ()
   \<and> filter is_bundle_file (entries (snd (cleanupOldBundles ''/app'' locked_oldest)))
     = [''backend.dist.1.cjs'', ''backend.dist.2.cjs'', ''backend.dist.3.cjs'']"
  by (simp add: locked_oldest_def prune_eval)

text \<open>
  C10 as stated fails: of three bundle files, two without a number in their name, one of
  the two is kept.
\<close>

theorem malformed_file_retained:
  "is_bundle_file ''backend.dist.abc.cjs''
   \<and> match_bundle_timestamp ''backend.dist.abc.cjs'' = None
   \<and> length (filter is_bundle_file (entries two_malformed)) = 3
   \<and> entries (snd (cleanupOldBundles ''/app'' two_malformed))
     = [''backend.dist.1.cjs'', ''backend.dist.abc.cjs'']"
  by (simp add: two_malformed_def prune_eval)

lemma prune_one_malformed: "entries (snd (cleanupOldBundles ''/app'' one_malformed)) = [''backend.dist.5.cjs'', ''backend.dist.7.cjs'', ''notes.txt'']"
  by (simp add: one_malformed_def prune_eval)

lemma timestamp_of_example: "timestamp_of ''backend.dist.1700000000000.cjs'' = 1700000000000"
  by (simp add: prune_eval)
lemma timestamp_of_overlapping: "timestamp_of ''backend.dist.cjs'' = 0 \<and> is_bundle_file ''backend.dist.cjs''"
  by (simp add: prune_eval)
lemma timestamp_of_unanchored: "timestamp_of ''backend.dist.x.backend.dist.12.cjs'' = 12"
  by (simp add: prune_eval)

lemma cleanup_never_raises: "fst (cleanupOldBundles cwd fs) = Inr ()"
  by (simp add: cleanupOldBundles_def cleanup_issued_def Let_def fs_access_def fs_readdir_def
      split: prod.split)

lemma cleanup_issued_listing:
  "accessible fs \<Longrightarrow> readable fs \<Longrightarrow>
   snd (cleanup_issued cwd fs)
     = drop 2 (ranked (dist_dir cwd) (filter is_bundle_file (entries fs)))"
  by (simp add: cleanup_issued_def Let_def fs_access_def fs_readdir_def filesToDelete_drop)

lemma cleanup_entries:
  assumes "accessible fs" and "readable fs"
  shows "entries (snd (cleanupOldBundles cwd fs))
     = filter (\<lambda>f. f \<notin> set (map name (drop 2 (ranked (dist_dir cwd)
                       (filter is_bundle_file (entries fs)))))
                  \<or> f \<in> set (locked fs)) (entries fs)"
proof -
  let ?d = "dist_dir cwd"
  let ?dels = "drop 2 (ranked ?d (filter is_bundle_file (entries fs)))"
  have "set ?dels \<subseteq> set (ranked ?d (filter is_bundle_file (entries fs)))"
    by (rule set_drop_subset)
  then have dels: "?dels = map (bundle_entry_of ?d) (map name ?dels)"
    by (rule ranked_as_map)
  have "snd (cleanupOldBundles cwd fs) = foldl (unlink_ignoring ?d) fs ?dels"
    using assms cleanup_issued_listing [of fs cwd]
    by (cases "cleanup_issued cwd fs") (simp add: cleanupOldBundles_def)
  also have "\<dots> = foldl (unlink_ignoring ?d) fs (map (bundle_entry_of ?d) (map name ?dels))"
    using dels by simp
  finally show ?thesis
    using settle_unlinks [of ?d fs "map name ?dels"] by simp
qed

text \<open>
  C3, as amended. A prune pass never raises. On a readable directory it starts an unlink for
  exactly the bundle files after the first two in the stable descending order of their
  timestamps, so every bundle file it keeps has a timestamp at least as large as every one
  it tries to delete. Once these unlinks have settled, the directory holds what it held
  before without the files whose unlink succeeded; a file whose unlink failed stays. When
  all of them succeed, the bundle files left are the first two of that order, at most 2.
\<close>

theorem prune_keeps_newest_and_undeletable:
  assumes "accessible fs" and "readable fs" and "distinct (entries fs)"
    and "exact_timestamps (entries fs)"
  shows "fst (cleanupOldBundles cwd fs) = Inr ()
    \<and> snd (cleanup_issued cwd fs)
        = drop 2 (ranked (dist_dir cwd) (filter is_bundle_file (entries fs)))
    \<and> (\<forall>k \<in> set (take 2 (ranked (dist_dir cwd) (filter is_bundle_file (entries fs)))).
        \<forall>x \<in> set (snd (cleanup_issued cwd fs)). timestamp x \<le> timestamp k)
    \<and> entries (snd (cleanupOldBundles cwd fs))
        = filter (\<lambda>f. f \<notin> set (map name (snd (cleanup_issued cwd fs))) \<or> f \<in> set (locked fs))
            (entries fs)
    \<and> (list_all (\<lambda>x. name x \<notin> set (locked fs)) (snd (cleanup_issued cwd fs)) \<longrightarrow>
         filter is_bundle_file (entries (snd (cleanupOldBundles cwd fs)))
           = filter (\<lambda>f. f \<in> set (map name (take 2 (ranked (dist_dir cwd)
                 (filter is_bundle_file (entries fs)))))) (entries fs)
         \<and> length (filter is_bundle_file (entries (snd (cleanupOldBundles cwd fs)))) \<le> 2)"
proof -
  let ?B = "filter is_bundle_file (entries fs)"
  let ?r = "ranked (dist_dir cwd) ?B"
  let ?fs' = "snd (cleanupOldBundles cwd fs)"
  have issued: "snd (cleanup_issued cwd fs) = drop 2 ?r"
    using assms by (simp add: cleanup_issued_listing)
  have order: "\<forall>k \<in> set (take 2 ?r). \<forall>x \<in> set (drop 2 ?r). timestamp x \<le> timestamp k"
    using kept_newer_than_deleted by blast
  have ents: "entries ?fs'
      = filter (\<lambda>f. f \<notin> set (map name (drop 2 ?r)) \<or> f \<in> set (locked fs)) (entries fs)"
    using assms by (simp add: cleanup_entries)
  have names: "map name ?r = map name (take 2 ?r) @ map name (drop 2 ?r)"
    by (simp flip: map_append)
  have "distinct (map name ?r)"
    using assms by (simp add: distinct_names_ranked)
  then have disj: "set (map name (take 2 ?r)) \<inter> set (map name (drop 2 ?r)) = {}"
    using names by (metis distinct_append)
  have cover: "set ?B = set (map name (take 2 ?r)) \<union> set (map name (drop 2 ?r))"
    using names set_names_ranked [of "dist_dir cwd" ?B] by (metis set_append)
  have rest: "filter is_bundle_file (entries ?fs')
        = filter (\<lambda>f. f \<in> set (map name (take 2 ?r))) (entries fs)
      \<and> length (filter is_bundle_file (entries ?fs')) \<le> 2"
    if ok: "list_all (\<lambda>x. name x \<notin> set (locked fs)) (drop 2 ?r)"
  proof -
    have unl: "f \<in> set (map name (drop 2 ?r)) \<Longrightarrow> f \<notin> set (locked fs)" for f
      using ok by (auto simp: list_all_iff)
    have eq: "filter is_bundle_file (entries ?fs')
        = filter (\<lambda>f. f \<in> set (map name (take 2 ?r))) (entries fs)"
      unfolding ents filter_filter
    proof (rule filter_cong [OF refl])
      fix f assume "f \<in> set (entries fs)"
      then have "is_bundle_file f \<longleftrightarrow> f \<in> set ?B" by simp
      with cover disj unl [of f]
      show "((f \<notin> set (map name (drop 2 ?r)) \<or> f \<in> set (locked fs)) \<and> is_bundle_file f)
          = (f \<in> set (map name (take 2 ?r)))"
        by blast
    qed
    have "length (filter (\<lambda>f. f \<in> set (map name (take 2 ?r))) (entries fs))
        = card ({f. f \<in> set (map name (take 2 ?r))} \<inter> set (entries fs))"
      using assms by (simp add: distinct_length_filter)
    also have "\<dots> \<le> card (set (map name (take 2 ?r)))"
      by (rule card_mono) auto
    also have "\<dots> \<le> length (map name (take 2 ?r))"
      by (rule card_length)
    also have "\<dots> \<le> 2" by simp
    finally show ?thesis using eq by simp
  qed
  show ?thesis
    unfolding issued
    using cleanup_never_raises [of cwd fs] order ents rest by blast
qed

theorem prune_keeps_newest_and_undeletable_witness:
  "accessible one_malformed \<and> readable one_malformed \<and> distinct (entries one_malformed)
   \<and> exact_timestamps (entries one_malformed)
   \<and> list_all (\<lambda>x. name x \<notin> set (locked one_malformed)) (snd (cleanup_issued ''/app'' one_malformed))
   \<and> map name (snd (cleanup_issued ''/app'' one_malformed)) = [''backend.dist.abc.cjs'']
   \<and> filter is_bundle_file (entries (snd (cleanupOldBundles ''/app'' one_malformed)))
       = [''backend.dist.5.cjs'', ''backend.dist.7.cjs'']
   \<and> length (filter is_bundle_file (entries (snd (cleanupOldBundles ''/app'' one_malformed)))) \<le> 2"
  using prune_keeps_newest_and_undeletable [of one_malformed "''/app''"]
  by (simp add: one_malformed_def prune_eval)

lemma timestamp_of_unmatched: "match_bundle_timestamp f = None \<Longrightarrow> timestamp_of f = 0"
  by (simp add: timestamp_of_def parse_digits_def digit_val_def)

lemma positive_count_ranked:
  "length (filter (\<lambda>e. 0 < timestamp e) (ranked d fs))
     = length (filter (\<lambda>g. 0 < timestamp_of g) fs)"
proof -
  have "filter (\<lambda>e. 0 < timestamp e) (ranked d fs)
      = sort_key (\<lambda>e. - int (timestamp e))
          (filter (\<lambda>e. 0 < timestamp e) (map (bundle_entry_of d) fs))"
    by (simp add: ranked_def filter_sort)
  then have "length (filter (\<lambda>e. 0 < timestamp e) (ranked d fs))
      = length (filter (\<lambda>e. 0 < timestamp e) (map (bundle_entry_of d) fs))"
    by simp
  also have "\<dots> = length (filter (\<lambda>g. 0 < timestamp_of g) fs)"
    by (simp add: filter_map comp_def timestamp_bundle_entry_of)
  finally show ?thesis .
qed

text \<open>
  C10, as amended. A bundle file whose name the regular expression does not match gets
  timestamp 0. When at least two bundle files have a timestamp above 0, it is not among the
  two kept: the pass starts an unlink for it, and afterwards it is in the directory only if
  that unlink failed.
\<close>

theorem malformed_deleted_behind_two_positive:
  assumes "accessible fs" and "readable fs"
    and "f \<in> set (entries fs)" and "is_bundle_file f" and "match_bundle_timestamp f = None"
    and "2 \<le> length (filter (\<lambda>g. is_bundle_file g \<and> 0 < timestamp_of g) (entries fs))"
    and "exact_timestamps (entries fs)"
  shows "timestamp_of f = 0
    \<and> bundle_entry_of (dist_dir cwd) f \<in> set (snd (cleanup_issued cwd fs))
    \<and> f \<notin> set (map name (take 2 (ranked (dist_dir cwd) (filter is_bundle_file (entries fs)))))
    \<and> (f \<in> set (entries (snd (cleanupOldBundles cwd fs))) \<longleftrightarrow> f \<in> set (locked fs))"
proof -
  let ?d = "dist_dir cwd"
  let ?B = "filter is_bundle_file (entries fs)"
  let ?r = "ranked ?d ?B"
  have zero: "timestamp_of f = 0"
    using assms by (simp add: timestamp_of_unmatched)
  have "filter (\<lambda>g. 0 < timestamp_of g) ?B
      = filter (\<lambda>g. is_bundle_file g \<and> 0 < timestamp_of g) (entries fs)"
    by (simp add: conj_commute)
  then have "2 \<le> length (filter (\<lambda>e. 0 < timestamp e) ?r)"
    using assms by (simp add: positive_count_ranked)
  moreover have "(\<lambda>e::bundle_entry. - int (timestamp e) < 0) = (\<lambda>e. 0 < timestamp e)"
    by auto
  ultimately have two: "2 \<le> length (filter (\<lambda>e. - int (timestamp e) < 0) ?r)"
    by (simp only:)
  have pos: "0 < timestamp k" if "k \<in> set (take 2 ?r)" for k
    using sorted_prefix_below [OF sorted_ranked two that] by simp
  have mem: "bundle_entry_of ?d f \<in> set ?r"
    using assms by (simp add: set_ranked)
  have not_kept: "bundle_entry_of ?d f \<notin> set (take 2 ?r)"
    using pos [of "bundle_entry_of ?d f"] zero by (auto simp: timestamp_bundle_entry_of)
  have "set ?r = set (take 2 ?r) \<union> set (drop 2 ?r)"
    by (metis append_take_drop_id set_append)
  with mem not_kept have del: "bundle_entry_of ?d f \<in> set (drop 2 ?r)" by blast
  have issued: "snd (cleanup_issued cwd fs) = drop 2 ?r"
    using assms by (simp add: cleanup_issued_listing)
  have name_not_kept: "f \<notin> set (map name (take 2 ?r))"
  proof
    assume "f \<in> set (map name (take 2 ?r))"
    then obtain k where k: "k \<in> set (take 2 ?r)" and "name k = f" by auto
    moreover from k have "k \<in> set ?r" by (rule in_set_takeD)
    ultimately have "k = bundle_entry_of ?d f" using ranked_entry by blast
    with k not_kept show False by simp
  qed
  from del have "f \<in> set (map name (drop 2 ?r))"
    by (metis image_eqI name_bundle_entry_of set_map)
  then have "f \<in> set (entries (snd (cleanupOldBundles cwd fs))) \<longleftrightarrow> f \<in> set (locked fs)"
    using assms by (auto simp: cleanup_entries)
  with zero del issued name_not_kept show ?thesis by simp
qed

theorem malformed_deleted_behind_two_positive_witness:
  "accessible one_malformed \<and> readable one_malformed
   \<and> ''backend.dist.abc.cjs'' \<in> set (entries one_malformed)
   \<and> is_bundle_file ''backend.dist.abc.cjs''
   \<and> match_bundle_timestamp ''backend.dist.abc.cjs'' = None
   \<and> 2 \<le> length (filter (\<lambda>g. is_bundle_file g \<and> 0 < timestamp_of g) (entries one_malformed))
   \<and> exact_timestamps (entries one_malformed)
   \<and> timestamp_of ''backend.dist.abc.cjs'' = 0
   \<and> ''backend.dist.abc.cjs'' \<notin> set (entries (snd (cleanupOldBundles ''/app'' one_malformed)))"
  using malformed_deleted_behind_two_positive [of one_malformed "''backend.dist.abc.cjs''" "''/app''"]
  by (simp add: one_malformed_def prune_eval)

section \<open>Properties: logging and the HTML fallback\<close>

lemma length_ellipsis: "length ellipsis = 3"
  by (simp add: ellipsis_def)

lemma length_cap_line: "length (cap_line l) \<le> 200"
  by (simp add: cap_line_def length_ellipsis)

lemma length_trimmedResponse: "length (trimmedResponse s) \<le> 100 + length ellipsis"
  by (simp add: trimmedResponse_def)

lemma trimmedResponse_cases:
  "(length s \<le> 100 \<longrightarrow> trimmedResponse s = s)
   \<and> (100 < length s \<longrightarrow> trimmedResponse s = take 100 s @ ellipsis)"
  by (simp add: trimmedResponse_def)

lemma compose_line_response:
  assumes "compose_line truthy stringify req statusCode duration (Some b) = Inr logLine"
    and "truthy b"
  shows "\<exists>s pre. stringify b = Text s
    \<and> logLine = pre @ ascii '' :: response: '' @ trimmedResponse s"
proof (cases "stringify b")
  case (Text s)
  with assms show ?thesis
    by (auto simp: compose_line_def optional_part_def response_part_def
        split: sum.splits option.splits)
qed (use assms in \<open>auto simp: compose_line_def optional_part_def response_part_def
        split: sum.splits option.splits\<close>)

text \<open>
  C8. Every line the finish listener hands to \<open>log\<close> has at most 200 code units: it is the
  composed line, replaced by its first 79 code units and the marker when it is longer than
  200. A captured response enters the composed line as its serialization when that has at
  most 100 code units, and as its first 100 code units followed by the marker otherwise.
\<close>

theorem log_line_bounds:
  assumes "on_finish truthy stringify req statusCode duration captured = Inr (Some line)"
  shows "length line \<le> 200
    \<and> (\<exists>logLine. compose_line truthy stringify req statusCode duration captured = Inr logLine
          \<and> line = cap_line logLine
          \<and> (\<forall>b. captured = Some b \<and> truthy b \<longrightarrow>
                (\<exists>s pre. stringify b = Text s
                   \<and> logLine = pre @ ascii '' :: response: '' @ trimmedResponse s
                   \<and> length (trimmedResponse s) \<le> 100 + length ellipsis
                   \<and> (length s \<le> 100 \<longrightarrow> trimmedResponse s = s)
                   \<and> (100 < length s \<longrightarrow> trimmedResponse s = take 100 s @ ellipsis))))"
proof -
  from assms obtain logLine
    where l: "compose_line truthy stringify req statusCode duration captured = Inr logLine"
      and c: "line = cap_line logLine"
    by (auto simp: on_finish_def split: if_splits sum.splits)
  have "\<exists>s pre. stringify b = Text s
      \<and> logLine = pre @ ascii '' :: response: '' @ trimmedResponse s
      \<and> length (trimmedResponse s) \<le> 100 + length ellipsis
      \<and> (length s \<le> 100 \<longrightarrow> trimmedResponse s = s)
      \<and> (100 < length s \<longrightarrow> trimmedResponse s = take 100 s @ ellipsis)"
    if "captured = Some b \<and> truthy b" for b
    using compose_line_response [of truthy stringify req statusCode duration b logLine]
      l that length_trimmedResponse trimmedResponse_cases by blast
  with l c length_cap_line [of logLine] show ?thesis by blast
qed

lemmas log_eval =
  on_finish_def compose_line_def optional_part_def response_part_def interpolate_def
  trimmedResponse_def cap_line_def ascii_def starts_with_def number_to_string_def
  show_nat.simps digit_char_def length_ellipsis

lemma hello_line:
  "on_finish (\<lambda>b. True) (\<lambda>b. Text (replicate 150 0x61)) hello_request 200 5 (Some ())
     = Inr (Some (ascii ''GET /api/hello 200 in 5ms :: response: '' @ replicate 100 0x61
                  @ ellipsis))"
  by (simp add: hello_request_def log_eval)

theorem log_line_bounds_witness:
  "on_finish (\<lambda>b. True) (\<lambda>b. Text (replicate 150 0x61)) hello_request 200 5 (Some ())
     = Inr (Some (ascii ''GET /api/hello 200 in 5ms :: response: '' @ replicate 100 0x61
                  @ ellipsis))
   \<and> length (ascii ''GET /api/hello 200 in 5ms :: response: '' @ replicate 100 0x61 @ ellipsis)
     \<le> 200"
  using log_line_bounds [OF hello_line] hello_line by (simp add: ascii_def length_ellipsis)

lemma long_body_line:
  "on_finish (\<lambda>b. True) (\<lambda>b. Text (replicate 150 0x61)) long_body_request 200 5 (Some ())
     = Inr (Some (ascii ''POST /api/items 200 in 5ms :: body: '' @ replicate 43 0x78
                  @ ellipsis))"
  by (simp add: long_body_request_def log_eval)

lemma run_logged_snd:
  "calls_on_res h \<Longrightarrow>
   snd (run_logged h originalResJson (cap, res)) = run_plain h originalResJson res"
proof (induction h arbitrary: cap res)
  case Done
  show ?case by simp
next
  case (CallJson this bodyJson args k)
  then have this_res: "this = Res" and rest: "\<And>r. calls_on_res (k r)" by simp_all
  show ?case
  proof (cases "originalResJson Res bodyJson args res")
    case (Pair r res')
    with this_res show ?thesis
      using CallJson.IH [OF rangeI rest, of r "Some bodyJson" res']
      by (simp add: wrapped_json_def)
  qed
next
  case (Mutate f h)
  then show ?case by simp
next
  case (Observe k)
  then show ?case by simp
qed

lemma on_finish_throws_iff:
  "(\<exists>e. on_finish truthy stringify req sc duration captured = Inl e) \<longleftrightarrow>
   starts_with (ascii ''/api'') (req_path req)
   \<and> (req_body req = Some Throws \<or> req_query req = Some Throws
      \<or> (\<exists>b. captured = Some b \<and> truthy b
            \<and> (stringify b = Throws \<or> stringify b = Undefined)))"
  by (auto simp: on_finish_def compose_line_def optional_part_def interpolate_def
      response_part_def split: option.splits sum.splits stringified.splits)

text \<open>
  C9 as stated fails: a route that calls \<open>res.json\<close> detached from \<open>res\<close> ends in the error
  handler's 500 without the middleware, and answers 200 with its own body with it.
\<close>

theorem detached_json_differs:
  \<open>run_plain detached_hello express_json fresh_response
     = \<lparr>status_code = 500, sent_body = Some ''{"message":"Internal Server Error"}''\<rparr>
   \<and> fst (logging_middleware detached_hello express_json status_code (\<lambda>b. True)
           (\<lambda>b. Text (ascii b)) hello_request 5 fresh_response)
     = \<lparr>status_code = 200, sent_body = Some ''{"message":"Hello, world!"}''\<rparr>\<close>
  by (simp add: detached_hello_def express_json_def fresh_response_def logging_middleware_def
      wrapped_json_def)

text \<open>
  C9, as amended. The function the middleware puts in place of \<open>res.json\<close> passes the same
  body and arguments to the original, always with \<open>res\<close> as the receiver, returns what it
  returns and leaves the response as the original leaves it. So for handlers that call
  \<open>res.json\<close> as a method of \<open>res\<close>, the response ends up as it would without the
  middleware. The finish listener gets the captured body and the finished response's status
  and does not change the response; it throws exactly when the path is under \<open>/api\<close> and
  one of the values it serializes makes \<open>JSON.stringify\<close> throw or, for the captured
  response, return \<open>undefined\<close>.
\<close>

theorem logger_leaves_response_alone:
  assumes "calls_on_res h"
  shows "wrapped_json originalResJson this bodyJson args (cap, res)
      = (fst (originalResJson Res bodyJson args res), Some bodyJson,
         snd (originalResJson Res bodyJson args res))
    \<and> snd (run_logged h originalResJson (cap, res)) = run_plain h originalResJson res
    \<and> fst (logging_middleware h originalResJson status_of truthy stringify req duration res)
      = run_plain h originalResJson res
    \<and> snd (logging_middleware h originalResJson status_of truthy stringify req duration res)
      = on_finish truthy stringify req (status_of (run_plain h originalResJson res)) duration
          (fst (run_logged h originalResJson (None, res)))
    \<and> ((\<exists>e. on_finish truthy stringify req sc duration captured = Inl e) \<longleftrightarrow>
         starts_with (ascii ''/api'') (req_path req)
         \<and> (req_body req = Some Throws \<or> req_query req = Some Throws
            \<or> (\<exists>b. captured = Some b \<and> truthy b
                  \<and> (stringify b = Throws \<or> stringify b = Undefined))))"
proof -
  have w: "wrapped_json originalResJson this bodyJson args (cap, res)
      = (fst (originalResJson Res bodyJson args res), Some bodyJson,
         snd (originalResJson Res bodyJson args res))"
    by (simp add: wrapped_json_def split: prod.split)
  have r: "snd (run_logged h originalResJson (c, res)) = run_plain h originalResJson res" for c
    using assms by (rule run_logged_snd)
  have m: "logging_middleware h originalResJson status_of truthy stringify req duration res
      = (run_plain h originalResJson res,
         on_finish truthy stringify req (status_of (run_plain h originalResJson res)) duration
           (fst (run_logged h originalResJson (None, res))))"
    using r [of None]
    by (cases "run_logged h originalResJson (None, res)") (simp add: logging_middleware_def)
  show ?thesis
    using w r [of cap] m
      on_finish_throws_iff [of truthy stringify req sc duration captured]
    by simp
qed

theorem logger_leaves_response_alone_witness:
  \<open>calls_on_res method_hello
   \<and> run_plain method_hello express_json fresh_response
     = \<lparr>status_code = 200, sent_body = Some ''{"message":"Hello, world!"}''\<rparr>
   \<and> logging_middleware method_hello express_json status_code (\<lambda>b. True)
        (\<lambda>b. Text (ascii b)) hello_request 5 fresh_response
     = (\<lparr>status_code = 200, sent_body = Some ''{"message":"Hello, world!"}''\<rparr>,
        Inr (Some (ascii
          ''GET /api/hello 200 in 5ms :: response: {"message":"Hello, world!"}'')))\<close>
proof -
  have c: "calls_on_res method_hello" by (simp add: method_hello_def)
  have p: \<open>run_plain method_hello express_json fresh_response
      = \<lparr>status_code = 200, sent_body = Some ''{"message":"Hello, world!"}''\<rparr>\<close>
    by (simp add: method_hello_def express_json_def fresh_response_def)
  have f: \<open>on_finish (\<lambda>b. True) (\<lambda>b. Text (ascii b)) hello_request 200 5
        (Some ''{"message":"Hello, world!"}'')
      = Inr (Some (ascii
          ''GET /api/hello 200 in 5ms :: response: {"message":"Hello, world!"}''))\<close>
    by (simp add: hello_request_def log_eval)
  have g: \<open>fst (run_logged method_hello express_json (None, fresh_response))
      = Some ''{"message":"Hello, world!"}''\<close>
    by (simp add: method_hello_def express_json_def wrapped_json_def)
  show ?thesis
    using logger_leaves_response_alone [OF c, of express_json Res "''x''" "[]" None
        fresh_response status_code "\<lambda>b. True" "\<lambda>b. Text (ascii b)" hello_request 5
        200 None]
      c p f g
    by (simp add: prod_eq_iff)
qed

lemma finish_listener_throws:
  "on_finish (\<lambda>b. True) (\<lambda>b. Undefined) hello_request 200 5 (Some ()) = Inl TypeError"
  by (simp add: hello_request_def log_eval)



lemma vite_client_injected_keeps:
  "vite_client_injected url x = Inr page \<Longrightarrow> x = c @ r @ d \<Longrightarrow> \<exists>c' d'. page = c' @ r @ d'"
  by (metis Inr_inject append.assoc vite_client_injected_def)




end
